theory Spec2Isabelle
  imports Main "HOL-Library.Extended_Nat" "HOL-Library.AList" "HOL-Library.Sublist"
begin

section \<open>The tab pool of \<^verbatim>\<open>src/index.js\<close>\<close>

text \<open>
  \<^verbatim>\<open>ChromeTabsPool\<close> is a JavaScript class whose methods are \<^verbatim>\<open>async\<close>
  functions. JavaScript runs one piece of code at a time: an async function runs
  without interruption up to its next \<^verbatim>\<open>await\<close>, is suspended there, and is
  resumed later, after the awaited promise has been settled. Between the suspension
  and the resumption other code runs: other calls of the pool's methods and the
  continuations of other suspended calls. The embedding follows that: every piece of
  a method between two \<^verbatim>\<open>await\<close>s is one atomic step on the pool's fields, and
  an execution is a list of such steps, chosen by the callers and by the browser.
\<close>

subsection \<open>Data\<close>

type_synonym tab_id = string

type_synonym task = nat

text \<open>
  The object returned by \<^verbatim>\<open>connectTab\<close> (lines 100--106),
  \<^verbatim>\<open>{tabId, Page, DOM, Runtime, Network}\<close>: the four protocol domains belong to
  the tab \<^verbatim>\<open>tabId\<close>, so the handle is identified by it.
\<close>

datatype client = Client tab_id

text \<open>An entry of \<^verbatim>\<open>this.tabs\<close>: \<^verbatim>\<open>{free, client}\<close> (lines 75--78, 123--126).\<close>

record tab =
  free :: bool
  client :: client

text \<open>An element of the array returned by \<^verbatim>\<open>chrome.List\<close>: \<^verbatim>\<open>{id, type}\<close>.\<close>

record target =
  tid :: tab_id
  ttype :: string

text \<open>
  The fields of a \<^verbatim>\<open>ChromeTabsPool\<close>. \<^verbatim>\<open>destroyPoll\<close> sets four of them to
  \<^verbatim>\<open>null\<close>, which is \<open>None\<close> here. \<^verbatim>\<open>tabs\<close> is a JavaScript object used as a
  dictionary; \<^verbatim>\<open>Object.keys\<close> lists its keys in the order of their insertion
  (target ids are not array indices), so it is an association list with distinct
  keys. \<^verbatim>\<open>maxTab\<close> is a count or \<^verbatim>\<open>Infinity\<close>, the default. An element of
  \<^verbatim>\<open>requireResolveTasks\<close> is the \<^verbatim>\<open>resolve\<close> function of the promise a
  \<^verbatim>\<open>require\<close> call waits on; it is identified by that call.
\<close>

record pool =
  port :: "nat option"
  chromeLauncher :: "unit option"
  tabs :: "(tab_id \<times> tab) list option"
  maxTab :: enat
  requireResolveTasks :: "task list option"

datatype error =
    TypeError   \<comment> \<open>raised by JavaScript itself: a property of \<^verbatim>\<open>null\<close> or \<^verbatim>\<open>undefined\<close>\<close>
  | Rejected    \<comment> \<open>the promise of an external call (port, browser, protocol) was rejected\<close>

subsection \<open>Construction: \<^verbatim>\<open>ChromeTabsPool.new\<close> (lines 57--82)\<close>

text \<open>
  The loop of lines 70--80 over the targets listed by the browser. \<open>broken\<close> is the
  set of targets for which \<^verbatim>\<open>connectTab\<close> is rejected; a rejection leaves the loop
  and the whole of \<^verbatim>\<open>new\<close>. \<^verbatim>\<open>this.tabs[id] = v\<close> replaces the value of an
  existing key in place and appends a new key, as \<^const>\<open>AList.update\<close> does.
\<close>

fun register_pages ::
  "tab_id set \<Rightarrow> target list \<Rightarrow> (tab_id \<times> tab) list \<Rightarrow> error + (tab_id \<times> tab) list" where
  "register_pages broken [] ts = Inr ts"
| "register_pages broken (tg # tgs) ts =
     (if ttype tg = ''page''
      then (if tid tg \<in> broken then Inl Rejected
            else register_pages broken tgs
                   (AList.update (tid tg) \<lparr>free = True, client = Client (tid tg)\<rparr> ts))
      else register_pages broken tgs ts)"

text \<open>
  \<^verbatim>\<open>new(maxTab)\<close>. The results of the external calls are arguments: the port found
  by \<^verbatim>\<open>sysFreePort\<close> (\<open>None\<close>: rejected), whether \<^verbatim>\<open>launchChrome\<close> succeeds, the
  list returned by \<^verbatim>\<open>chrome.List\<close> (\<open>None\<close>: rejected) and \<open>broken\<close>. The pool is
  returned at line 81 only; nothing can call its methods before.
\<close>

definition new ::
  "enat \<Rightarrow> nat option \<Rightarrow> bool \<Rightarrow> target list option \<Rightarrow> tab_id set \<Rightarrow> error + pool" where
  "new n sysFreePort launched listed broken =
     (case sysFreePort of
        None \<Rightarrow> Inl Rejected
      | Some pt \<Rightarrow>
          if \<not> launched then Inl Rejected
          else (case listed of
                  None \<Rightarrow> Inl Rejected
                | Some tgs \<Rightarrow>
                    (case register_pages broken tgs [] of
                       Inl e \<Rightarrow> Inl e
                     | Inr ts \<Rightarrow>
                         Inr \<lparr>port = Some pt, chromeLauncher = Some (), tabs = Some ts,
                              maxTab = n, requireResolveTasks = Some []\<rparr>)))"

subsection \<open>The pieces of the methods\<close>

text \<open>Where a \<^verbatim>\<open>createTab\<close> call is suspended.\<close>

datatype createTab_frame =
    At_New                   \<comment> \<open>line 120, \<^verbatim>\<open>await chrome.New\<close>\<close>
  | At_connect tab_id bool   \<comment> \<open>line 125, \<^verbatim>\<open>await this.connectTab(id)\<close>; the flag:
                                 \<^verbatim>\<open>this.tabs\<close>, read at line 123, was not \<^verbatim>\<open>null\<close>\<close>

datatype 'a progress =
    Suspended createTab_frame
  | Finished 'a
  | Failed error

text \<open>
  \<^verbatim>\<open>createTab\<close>, lines 115--120: \<^verbatim>\<open>Object.keys(null)\<close> throws; below
  \<^verbatim>\<open>maxTab\<close> the call asks the browser for a target and is suspended; otherwise
  the function ends without a \<^verbatim>\<open>return\<close>, that is with \<^verbatim>\<open>undefined\<close>
  (\<open>Finished None\<close>).
\<close>

definition createTab_start :: "pool \<Rightarrow> tab_id option progress" where
  "createTab_start p =
     (case tabs p of
        None \<Rightarrow> Failed TypeError
      | Some ts \<Rightarrow>
          if enat (length ts) < maxTab p then Suspended At_New else Finished None)"

text \<open>
  Lines 120--125, when \<^verbatim>\<open>chrome.New\<close> is settled (\<open>None\<close>: rejected). The target
  \<^verbatim>\<open>this.tabs[id]\<close> of the assignment of line 123 is evaluated before its right-hand
  side, so \<^verbatim>\<open>this.tabs\<close> is read before \<^verbatim>\<open>connectTab\<close> is awaited.
\<close>

definition createTab_New :: "pool \<Rightarrow> tab_id option \<Rightarrow> tab_id option progress" where
  "createTab_New p r =
     (case r of
        None \<Rightarrow> Failed Rejected
      | Some i \<Rightarrow> Suspended (At_connect i (tabs p \<noteq> None)))"

text \<open>
  Lines 123--127, when \<^verbatim>\<open>connectTab\<close> is settled. The entry is stored in the
  object read at line 123: a store into \<^verbatim>\<open>null\<close> throws, and a store into the
  object that \<^verbatim>\<open>destroyPoll\<close> has detached meanwhile does not change the pool.
\<close>

definition createTab_connect ::
  "pool \<Rightarrow> tab_id \<Rightarrow> bool \<Rightarrow> bool \<Rightarrow> pool \<times> tab_id option progress" where
  "createTab_connect p i live ok =
     (if \<not> ok then (p, Failed Rejected)
      else if \<not> live then (p, Failed TypeError)
      else (case tabs p of
              None \<Rightarrow> (p, Finished (Some i))
            | Some ts \<Rightarrow>
                (p\<lparr>tabs := Some (AList.update i \<lparr>free = True, client = Client i\<rparr> ts)\<rparr>,
                 Finished (Some i))))"

text \<open>\<^verbatim>\<open>require\<close>, line 136: the first key whose entry is free.\<close>

definition find_free :: "(tab_id \<times> tab) list \<Rightarrow> tab_id option" where
  "find_free ts = map_option fst (List.find (\<lambda>kv. free (snd kv)) ts)"

text \<open>
  \<^verbatim>\<open>require\<close>, lines 146--148: \<^verbatim>\<open>tab = this.tabs[tabId]; tab.free = false;
  return tab.client\<close>. A \<^verbatim>\<open>null\<close> registry and a missing entry both throw.
\<close>

definition require_take :: "pool \<Rightarrow> tab_id \<Rightarrow> error + pool \<times> client" where
  "require_take p i =
     (case tabs p of
        None \<Rightarrow> Inl TypeError
      | Some ts \<Rightarrow>
          (case map_of ts i of
             None \<Rightarrow> Inl TypeError
           | Some tb \<Rightarrow>
               Inr (p\<lparr>tabs := Some (AList.update i (tb\<lparr>free := False\<rparr>) ts)\<rparr>, client tb)))"

text \<open>
  \<^verbatim>\<open>release\<close>, lines 156--158, up to the \<^verbatim>\<open>await\<close>: the entry is looked up and
  its \<^verbatim>\<open>client.Page.navigate\<close> is called. Nothing else is checked.
\<close>

definition release_start :: "pool \<Rightarrow> tab_id \<Rightarrow> error + unit" where
  "release_start p i =
     (case tabs p of
        None \<Rightarrow> Inl TypeError
      | Some ts \<Rightarrow> (case map_of ts i of None \<Rightarrow> Inl TypeError | Some tb \<Rightarrow> Inr ()))"

text \<open>
  \<^verbatim>\<open>release\<close>, line 159: \<^verbatim>\<open>tab.free = true\<close>, on the entry found at line 156.
  After \<^verbatim>\<open>destroyPoll\<close> that entry is no longer part of the pool.
\<close>

definition set_free :: "pool \<Rightarrow> tab_id \<Rightarrow> pool" where
  "set_free p i =
     (case tabs p of
        None \<Rightarrow> p
      | Some ts \<Rightarrow>
          (case map_of ts i of
             None \<Rightarrow> p
           | Some tb \<Rightarrow> p\<lparr>tabs := Some (AList.update i (tb\<lparr>free := True\<rparr>) ts)\<rparr>))"

text \<open>\<^verbatim>\<open>destroyPoll\<close>, lines 172--175.\<close>

definition clear :: "pool \<Rightarrow> pool" where
  "clear p = p\<lparr>tabs := None, chromeLauncher := None, port := None,
               requireResolveTasks := None\<rparr>"

subsection \<open>Calls in progress\<close>

text \<open>What a finished call gave its caller: the value its promise is fulfilled with, or
  the error it is rejected with.\<close>

datatype result =
    Return_client client         \<comment> \<open>\<^verbatim>\<open>require\<close>, line 148\<close>
  | Return_id "tab_id option"    \<comment> \<open>\<^verbatim>\<open>createTab\<close>: line 127, or \<^verbatim>\<open>undefined\<close>\<close>
  | Return_void                  \<comment> \<open>\<^verbatim>\<open>release\<close>, \<^verbatim>\<open>destroyPoll\<close>\<close>
  | Throw error

text \<open>Where a call is: suspended at one of the \<^verbatim>\<open>await\<close>s of the source, or done.\<close>

datatype frame =
    CreateTab createTab_frame           \<comment> \<open>a call of \<^verbatim>\<open>createTab\<close> by a user\<close>
  | Require_createTab createTab_frame   \<comment> \<open>\<^verbatim>\<open>require\<close> at line 138, its \<^verbatim>\<open>createTab\<close> suspended\<close>
  | Require_created "tab_id option"     \<comment> \<open>line 138, \<^verbatim>\<open>createTab\<close> has returned; not yet resumed\<close>
  | Require_parked                      \<comment> \<open>line 141, \<^verbatim>\<open>resolve\<close> is in \<^verbatim>\<open>requireResolveTasks\<close>\<close>
  | Require_resolved tab_id             \<comment> \<open>line 141, \<^verbatim>\<open>resolve(tabId)\<close> was called; not yet resumed\<close>
  | Release_navigate tab_id             \<comment> \<open>\<^verbatim>\<open>release(tabId)\<close> at line 158\<close>
  | Destroy_kill                        \<comment> \<open>\<^verbatim>\<open>destroyPoll\<close> at line 171\<close>
  | Done result

text \<open>
  The pool, the ids of the targets that exist in the browser (\<^verbatim>\<open>chrome.New\<close>
  answers with the id of a target it has just made, which no other target has), and
  the calls made so far.
\<close>

record state =
  pool :: pool
  browser :: "tab_id list"
  tasks :: "task \<Rightarrow> frame option"

definition init :: "pool \<Rightarrow> target list \<Rightarrow> state" where
  "init p tgs = \<lparr>pool = p, browser = map tid tgs, tasks = Map.empty\<rparr>"

text \<open>
  What happens next. A caller calls a method, under a task number not used before;
  the browser settles the external promise a call is suspended on (with a value, or
  \<open>None\<close>/\<open>False\<close> for a rejection); or a call whose promise was fulfilled by the pool
  itself is resumed. The last is an event of its own: the \<^verbatim>\<open>return\<close> of
  \<^verbatim>\<open>createTab\<close> and the \<^verbatim>\<open>resolve(tabId)\<close> of line 162 do not run the
  \<^verbatim>\<open>require\<close> that waits for them, they put its continuation on the job queue,
  behind the jobs that are there already, and a job of a caller may call the pool.
\<close>

datatype event =
    Call_require task
  | Call_createTab task
  | Call_release task tab_id
  | Call_destroyPoll task
  | Settle_New task "tab_id option"
  | Settle_connect task bool
  | Settle_navigate task bool
  | Settle_kill task bool
  | Resume task

text \<open>What a step lets the callers see.\<close>

datatype obs =
    Handed task tab_id     \<comment> \<open>\<^verbatim>\<open>require\<close> marks the entry busy and returns its client (lines 147--148)\<close>
  | Enqueued task          \<comment> \<open>\<^verbatim>\<open>unshift(resolve)\<close>, line 142\<close>
  | Freed tab_id           \<comment> \<open>\<^verbatim>\<open>tab.free = true\<close>, line 159\<close>
  | Resolved task tab_id   \<comment> \<open>\<^verbatim>\<open>resolve(tabId)\<close>, line 162\<close>

definition settle :: "state \<Rightarrow> task \<Rightarrow> frame \<Rightarrow> state" where
  "settle s t f = s\<lparr>tasks := (tasks s)(t \<mapsto> f)\<rparr>"

text \<open>
  The way on from a piece of \<^verbatim>\<open>createTab\<close>: to its caller, or into the
  \<^verbatim>\<open>require\<close> that awaits it at line 138 (an error thrown by \<^verbatim>\<open>createTab\<close>
  leaves \<^verbatim>\<open>require\<close> too, which catches nothing).
\<close>

definition in_createTab :: "state \<Rightarrow> task \<Rightarrow> tab_id option progress \<Rightarrow> state" where
  "in_createTab s t pr =
     settle s t (case pr of Suspended f \<Rightarrow> CreateTab f
                          | Finished r \<Rightarrow> Done (Return_id r)
                          | Failed e \<Rightarrow> Done (Throw e))"

definition in_require :: "state \<Rightarrow> task \<Rightarrow> tab_id option progress \<Rightarrow> state" where
  "in_require s t pr =
     settle s t (case pr of Suspended f \<Rightarrow> Require_createTab f
                          | Finished r \<Rightarrow> Require_created r
                          | Failed e \<Rightarrow> Done (Throw e))"

text \<open>Lines 146--148 of \<^verbatim>\<open>require\<close>, for the call \<open>t\<close>.\<close>

definition require_finish :: "state \<Rightarrow> task \<Rightarrow> tab_id \<Rightarrow> obs list \<times> state" where
  "require_finish s t i =
     (case require_take (pool s) i of
        Inl e \<Rightarrow> ([], settle s t (Done (Throw e)))
      | Inr (p', c) \<Rightarrow> ([Handed t i], settle (s\<lparr>pool := p'\<rparr>) t (Done (Return_client c))))"

text \<open>
  \<^verbatim>\<open>require\<close>, lines 136--138, up to the first \<^verbatim>\<open>await\<close>. With a free entry
  the call runs to its end at once.
\<close>

definition require_start :: "state \<Rightarrow> task \<Rightarrow> obs list \<times> state" where
  "require_start s t =
     (case tabs (pool s) of
        None \<Rightarrow> ([], settle s t (Done (Throw TypeError)))
      | Some ts \<Rightarrow>
          (case find_free ts of
             Some i \<Rightarrow> require_finish s t i
           | None \<Rightarrow> ([], in_require s t (createTab_start (pool s)))))"

text \<open>
  \<^verbatim>\<open>require\<close>, lines 140--143, resumed with \<^verbatim>\<open>undefined\<close>: the executor of the
  new promise puts \<^verbatim>\<open>resolve\<close> at the front of \<^verbatim>\<open>requireResolveTasks\<close>.
\<close>

definition require_park :: "state \<Rightarrow> task \<Rightarrow> obs list \<times> state" where
  "require_park s t =
     (case requireResolveTasks (pool s) of
        None \<Rightarrow> ([], settle s t (Done (Throw TypeError)))
      | Some q \<Rightarrow>
          ([Enqueued t],
           settle (s\<lparr>pool := (pool s)\<lparr>requireResolveTasks := Some (t # q)\<rparr>\<rparr>) t Require_parked))"

text \<open>
  \<^verbatim>\<open>release\<close>, lines 159--163, after the navigation: the entry is marked free;
  then, if the queue has an element, the last one is removed and called.
\<close>

definition release_finish :: "state \<Rightarrow> task \<Rightarrow> tab_id \<Rightarrow> obs list \<times> state" where
  "release_finish s t i =
     (let p1 = set_free (pool s) i in
      case requireResolveTasks p1 of
        None \<Rightarrow> ([Freed i], settle (s\<lparr>pool := p1\<rparr>) t (Done (Throw TypeError)))
      | Some q \<Rightarrow>
          if 0 < length q
          then ([Freed i, Resolved (last q) i],
                settle (settle (s\<lparr>pool := p1\<lparr>requireResolveTasks := Some (butlast q)\<rparr>\<rparr>)
                          (last q) (Require_resolved i))
                  t (Done Return_void))
          else ([Freed i], settle (s\<lparr>pool := p1\<rparr>) t (Done Return_void)))"

text \<open>
  The browser answers \<^verbatim>\<open>chrome.New\<close>: with a rejection, or with the id of a
  target that did not exist before.
\<close>

definition browser_New :: "state \<Rightarrow> tab_id option \<Rightarrow> state option" where
  "browser_New s r =
     (case r of
        None \<Rightarrow> Some s
      | Some i \<Rightarrow>
          if i \<in> set (browser s) then None else Some (s\<lparr>browser := browser s @ [i]\<rparr>))"

text \<open>One step; \<open>None\<close> when the event cannot happen in the state.\<close>

fun step :: "event \<Rightarrow> state \<Rightarrow> (obs list \<times> state) option" where
  "step (Call_require t) s =
     (if tasks s t \<noteq> None then None else Some (require_start s t))"
| "step (Call_createTab t) s =
     (if tasks s t \<noteq> None then None
      else Some ([], in_createTab s t (createTab_start (pool s))))"
| "step (Call_release t i) s =
     (if tasks s t \<noteq> None then None
      else (case release_start (pool s) i of
              Inl e \<Rightarrow> Some ([], settle s t (Done (Throw e)))
            | Inr u \<Rightarrow> Some ([], settle s t (Release_navigate i))))"
| "step (Call_destroyPoll t) s =
     (if tasks s t \<noteq> None then None
      else (case chromeLauncher (pool s) of
              None \<Rightarrow> Some ([], settle s t (Done (Throw TypeError)))
            | Some l \<Rightarrow> Some ([], settle s t Destroy_kill)))"
| "step (Settle_New t r) s =
     (case browser_New s r of
        None \<Rightarrow> None
      | Some s1 \<Rightarrow>
          (case tasks s t of
             Some (CreateTab At_New) \<Rightarrow>
               Some ([], in_createTab s1 t (createTab_New (pool s) r))
           | Some (Require_createTab At_New) \<Rightarrow>
               Some ([], in_require s1 t (createTab_New (pool s) r))
           | _ \<Rightarrow> None))"
| "step (Settle_connect t ok) s =
     (case tasks s t of
        Some (CreateTab (At_connect i live)) \<Rightarrow>
          (case createTab_connect (pool s) i live ok of
             (p', pr) \<Rightarrow> Some ([], in_createTab (s\<lparr>pool := p'\<rparr>) t pr))
      | Some (Require_createTab (At_connect i live)) \<Rightarrow>
          (case createTab_connect (pool s) i live ok of
             (p', pr) \<Rightarrow> Some ([], in_require (s\<lparr>pool := p'\<rparr>) t pr))
      | _ \<Rightarrow> None)"
| "step (Settle_navigate t ok) s =
     (case tasks s t of
        Some (Release_navigate i) \<Rightarrow>
          if ok then Some (release_finish s t i)
          else Some ([], settle s t (Done (Throw Rejected)))
      | _ \<Rightarrow> None)"
| "step (Settle_kill t ok) s =
     (case tasks s t of
        Some Destroy_kill \<Rightarrow>
          if ok then Some ([], settle (s\<lparr>pool := clear (pool s)\<rparr>) t (Done Return_void))
          else Some ([], settle s t (Done (Throw Rejected)))
      | _ \<Rightarrow> None)"
| "step (Resume t) s =
     (case tasks s t of
        Some (Require_created None) \<Rightarrow> Some (require_park s t)
      | Some (Require_created (Some i)) \<Rightarrow> Some (require_finish s t i)
      | Some (Require_resolved i) \<Rightarrow> Some (require_finish s t i)
      | _ \<Rightarrow> None)"

text \<open>An execution: the steps one after the other, with all they let see.\<close>

fun run :: "event list \<Rightarrow> state \<Rightarrow> (obs list \<times> state) option" where
  "run [] s = Some ([], s)"
| "run (e # es) s =
     (case step e s of
        None \<Rightarrow> None
      | Some (o1, s1) \<Rightarrow>
          (case run es s1 of
             None \<Rightarrow> None
           | Some (o2, s2) \<Rightarrow> Some (o1 @ o2, s2)))"

text \<open>What is read off the end of an execution.\<close>

definition seen :: "(obs list \<times> state) option \<Rightarrow> obs list option" where
  "seen r = map_option fst r"

definition pool_at :: "(obs list \<times> state) option \<Rightarrow> pool option" where
  "pool_at r = map_option (pool \<circ> snd) r"

definition frame_at :: "(obs list \<times> state) option \<Rightarrow> task \<Rightarrow> frame option" where
  "frame_at r t = (case r of None \<Rightarrow> None | Some (os, s) \<Rightarrow> tasks s t)"

text \<open>
  Construction followed by an execution: the browser starts with the targets \<open>tgs\<close>,
  \<^verbatim>\<open>new\<close> makes the pool, then the events happen. \<open>None\<close> when \<^verbatim>\<open>new\<close> is
  rejected or an event cannot happen.
\<close>

definition boot ::
  "enat \<Rightarrow> nat option \<Rightarrow> bool \<Rightarrow> target list \<Rightarrow> tab_id set \<Rightarrow> state option" where
  "boot n sysFreePort launched tgs broken =
     (case new n sysFreePort launched (Some tgs) broken of
        Inl e \<Rightarrow> None
      | Inr p \<Rightarrow> Some (init p tgs))"

definition exec :: "state option \<Rightarrow> event list \<Rightarrow> (obs list \<times> state) option" where
  "exec b evs = (case b of None \<Rightarrow> None | Some s \<Rightarrow> run evs s)"

text \<open>\<^verbatim>\<open>this.tabs[tabId]\<close>, where there is a registry and it has the key.\<close>

definition entry :: "pool \<Rightarrow> tab_id \<Rightarrow> tab option" where
  "entry p i = (case tabs p of None \<Rightarrow> None | Some ts \<Rightarrow> map_of ts i)"

text \<open>The pool after lines 172--175.\<close>

definition destroyed :: "pool \<Rightarrow> bool" where
  "destroyed p \<longleftrightarrow>
     tabs p = None \<and> chromeLauncher p = None \<and> port p = None \<and> requireResolveTasks p = None"

text \<open>The callers that were put on the queue, and those taken from it, in order.\<close>

fun enqueued :: "obs list \<Rightarrow> task list" where
  "enqueued [] = []"
| "enqueued (Enqueued t # os) = t # enqueued os"
| "enqueued (ob # os) = enqueued os"

fun resolved :: "obs list \<Rightarrow> task list" where
  "resolved [] = []"
| "resolved (Resolved t i # os) = t # resolved os"
| "resolved (ob # os) = resolved os"

section \<open>Properties\<close>

subsection \<open>Auxiliary facts\<close>

lemmas piece_defs = require_start_def find_free_def require_finish_def require_take_def
  settle_def in_require_def in_createTab_def createTab_start_def createTab_New_def
  createTab_connect_def require_park_def release_start_def release_finish_def set_free_def
  clear_def browser_New_def

lemmas run_defs = exec_def boot_def new_def init_def seen_def pool_at_def frame_at_def

lemma enqueued_append: "enqueued (xs @ ys) = enqueued xs @ enqueued ys"
  by (induction xs rule: enqueued.induct) simp_all

lemma resolved_append: "resolved (xs @ ys) = resolved xs @ resolved ys"
  by (induction xs rule: resolved.induct) simp_all

lemma run_Cons_Some:
  assumes "run (e # es) s = Some (os, s')"
  obtains o1 s1 o2 where "step e s = Some (o1, s1)" "run es s1 = Some (o2, s')" "os = o1 @ o2"
  using assms by (auto split: option.splits)

lemma run_append:
  "run (es @ fs) s =
     (case run es s of
        None \<Rightarrow> None
      | Some (o1, s1) \<Rightarrow>
          (case run fs s1 of None \<Rightarrow> None | Some (o2, s2) \<Rightarrow> Some (o1 @ o2, s2)))"
  by (induction es arbitrary: s) (auto split: option.splits)

lemma run_single: "run [e] s = step e s"
  by (simp split: option.splits)

text \<open>A pool whose fields are \<^verbatim>\<open>null\<close> is changed by no step.\<close>

lemma step_destroyed:
  assumes "step e s = Some (os, s')" "destroyed (pool s)"
  shows "pool s' = pool s"
  using assms
  by (cases e) (auto simp: piece_defs destroyed_def Let_def
      split: option.splits frame.splits createTab_frame.splits sum.splits if_splits
        progress.splits prod.splits)

lemma run_destroyed:
  assumes "run evs s = Some (os, s')" "destroyed (pool s)"
  shows "pool s' = pool s"
  using assms
proof (induction evs arbitrary: s os)
  case Nil
  then show ?case by simp
next
  case (Cons e es)
  from Cons.prems(1) obtain o1 s1 o2
    where st: "step e s = Some (o1, s1)" and rn: "run es s1 = Some (o2, s')"
    by (rule run_Cons_Some)
  have "pool s1 = pool s" using st Cons.prems(2) by (rule step_destroyed)
  with Cons.IH[OF rn] Cons.prems(2) show ?case by simp
qed

text \<open>Only line 162 wakes a parked call, and it needs the queue.\<close>

lemma step_parked:
  assumes "step e s = Some (os, s')" "requireResolveTasks (pool s) = None"
    "tasks s w = Some Require_parked"
  shows "tasks s' w = Some Require_parked"
  using assms
  by (cases e) (auto simp: piece_defs Let_def
      split: option.splits frame.splits createTab_frame.splits sum.splits if_splits
        progress.splits prod.splits)

lemma run_parked:
  assumes "run evs s = Some (os, s')" "destroyed (pool s)" "tasks s w = Some Require_parked"
  shows "tasks s' w = Some Require_parked"
  using assms
proof (induction evs arbitrary: s os)
  case Nil
  then show ?case by simp
next
  case (Cons e es)
  from Cons.prems(1) obtain o1 s1 o2
    where st: "step e s = Some (o1, s1)" and rn: "run es s1 = Some (o2, s')"
    by (rule run_Cons_Some)
  have p: "pool s1 = pool s" using st Cons.prems(2) by (rule step_destroyed)
  have "requireResolveTasks (pool s) = None" using Cons.prems(2) by (simp add: destroyed_def)
  with st have "tasks s1 w = Some Require_parked" using Cons.prems(3) by (rule step_parked)
  with Cons.IH[OF rn] p Cons.prems(2) show ?case by simp
qed

lemma kill_destroys:
  assumes "tasks s d = Some Destroy_kill"
  shows "step (Settle_kill d True) s =
           Some ([], settle (s\<lparr>pool := clear (pool s)\<rparr>) d (Done Return_void))"
  using assms by simp

lemma destroyed_clear: "destroyed (clear p)"
  by (simp add: destroyed_def clear_def)

text \<open>
  The queue read from its end is the list of the callers in the order of their arrival.
  One step adds what it enqueues behind and takes what it resolves from the head.
\<close>

lemma step_queue:
  assumes "step e s = Some (os, s')"
  shows "case requireResolveTasks (pool s) of
           None \<Rightarrow> requireResolveTasks (pool s') = None \<and> resolved os = [] \<and> enqueued os = []
         | Some q \<Rightarrow>
             (case requireResolveTasks (pool s') of
                Some q' \<Rightarrow> rev q @ enqueued os = resolved os @ rev q'
              | None \<Rightarrow> resolved os = [] \<and> enqueued os = [])"
  using assms
  by (cases e) (auto simp: piece_defs Let_def
      split: option.splits frame.splits createTab_frame.splits sum.splits if_splits
        progress.splits prod.splits)

lemma run_queue:
  assumes "run evs s = Some (os, s')"
  shows "case requireResolveTasks (pool s) of
           None \<Rightarrow> requireResolveTasks (pool s') = None \<and> resolved os = []
         | Some q \<Rightarrow>
             (case requireResolveTasks (pool s') of
                Some q' \<Rightarrow> rev q @ enqueued os = resolved os @ rev q'
              | None \<Rightarrow> prefix (resolved os) (rev q @ enqueued os))"
  using assms
proof (induction evs arbitrary: s os)
  case Nil
  then show ?case by (simp split: option.splits)
next
  case (Cons e es)
  from Cons.prems obtain o1 s1 o2 where st: "step e s = Some (o1, s1)"
    and rn: "run es s1 = Some (o2, s')" and os: "os = o1 @ o2"
    by (rule run_Cons_Some)
  note q1 = step_queue[OF st] and q2 = Cons.IH[OF rn]
  show ?case
  proof (cases "requireResolveTasks (pool s)")
    case None
    with q1 q2 show ?thesis by (simp add: os resolved_append split: option.splits)
  next
    case (Some q)
    show ?thesis
    proof (cases "requireResolveTasks (pool s1)")
      case None
      with q1 q2 Some show ?thesis
        by (simp add: os resolved_append enqueued_append split: option.splits)
    next
      case s1: (Some q1')
      from q1 Some s1 have a: "rev q @ enqueued o1 = resolved o1 @ rev q1'" by simp
      show ?thesis
      proof (cases "requireResolveTasks (pool s')")
        case None
        with q2 s1 have "prefix (resolved o2) (rev q1' @ enqueued o2)" by simp
        then have "prefix (resolved o1 @ resolved o2) (resolved o1 @ rev q1' @ enqueued o2)"
          by simp
        moreover from a
        have "rev q @ enqueued o1 @ enqueued o2 = resolved o1 @ rev q1' @ enqueued o2"
          by (metis append.assoc)
        ultimately have "prefix (resolved (o1 @ o2)) (rev q @ enqueued (o1 @ o2))"
          by (simp only: resolved_append enqueued_append)
        with Some None show ?thesis by (simp add: os)
      next
        case s2: (Some q2')
        with q2 s1 have b: "rev q1' @ enqueued o2 = resolved o2 @ rev q2'" by simp
        from a b have "rev q @ enqueued (o1 @ o2) = resolved (o1 @ o2) @ rev q2'"
          unfolding resolved_append enqueued_append by (metis append.assoc)
        with Some s2 show ?thesis by (simp add: os)
      qed
    qed
  qed
qed

text \<open>
  The callers in the queue are distinct and each is suspended at line 141; the registry
  and the queue are \<^verbatim>\<open>null\<close> together.
\<close>

lemma step_queue_parked:
  assumes "step e s = Some (os, s')"
    and "case requireResolveTasks (pool s) of None \<Rightarrow> True
         | Some q \<Rightarrow> distinct q \<and> (\<forall>w\<in>set q. tasks s w = Some Require_parked)"
  shows "case requireResolveTasks (pool s') of None \<Rightarrow> True
         | Some q \<Rightarrow> distinct q \<and> (\<forall>w\<in>set q. tasks s' w = Some Require_parked)"
proof (cases e)
  case (Settle_navigate t ok)
  show ?thesis
  proof (cases "requireResolveTasks (pool s)")
    case None
    with assms Settle_navigate show ?thesis
      by (auto simp: piece_defs Let_def split: option.splits frame.splits if_splits)
  next
    case (Some q)
    with assms(2) have d: "distinct q" and pk: "\<forall>w\<in>set q. tasks s w = Some Require_parked" by auto
    show ?thesis
    proof (cases "q = []")
      case True
      with assms Settle_navigate Some show ?thesis
        by (auto simp: piece_defs Let_def split: option.splits frame.splits if_splits)
    next
      case False
      have sub: "w \<in> set q" if "w \<in> set (butlast q)" for w
        using that by (rule in_set_butlastD)
      from d False have nl: "last q \<notin> set (butlast q)"
        by (metis append_butlast_last_id distinct_append disjoint_iff list.set_intros(1))
      have pk': "\<forall>w\<in>set (butlast q). tasks s w = Some Require_parked"
        using pk sub by blast
      have tq: "t \<notin> set (butlast q)" if "tasks s t = Some (Release_navigate i)" for i
        using that pk' by auto
      from d have d': "distinct (butlast q)" by (rule distinct_butlast)
      from assms(1) Settle_navigate Some False d d' pk pk' nl tq show ?thesis
        by (auto simp: piece_defs Let_def split: option.splits frame.splits if_splits)
    qed
  qed
qed (use assms in \<open>auto simp: piece_defs Let_def
      split: option.splits frame.splits createTab_frame.splits sum.splits if_splits
        progress.splits prod.splits\<close>)

lemma step_registry_queue:
  assumes "step e s = Some (os, s')"
    and "tabs (pool s) = None \<longleftrightarrow> requireResolveTasks (pool s) = None"
  shows "tabs (pool s') = None \<longleftrightarrow> requireResolveTasks (pool s') = None"
  using assms
  by (cases e) (auto simp: piece_defs Let_def
      split: option.splits frame.splits createTab_frame.splits sum.splits if_splits
        progress.splits prod.splits)


lemma run_queue_parked:
  assumes "run evs s = Some (os, s')"
    and "case requireResolveTasks (pool s) of None \<Rightarrow> True
         | Some q \<Rightarrow> distinct q \<and> (\<forall>w\<in>set q. tasks s w = Some Require_parked)"
  shows "case requireResolveTasks (pool s') of None \<Rightarrow> True
         | Some q \<Rightarrow> distinct q \<and> (\<forall>w\<in>set q. tasks s' w = Some Require_parked)"
  using assms
proof (induction evs arbitrary: s os)
  case Nil
  then show ?case by (auto split: option.splits)
next
  case (Cons e es)
  from Cons.prems(1) obtain o1 s1 o2
    where st: "step e s = Some (o1, s1)" and rn: "run es s1 = Some (o2, s')"
    by (rule run_Cons_Some)
  from st Cons.prems(2) have "case requireResolveTasks (pool s1) of None \<Rightarrow> True
         | Some q \<Rightarrow> distinct q \<and> (\<forall>w\<in>set q. tasks s1 w = Some Require_parked)"
    by (rule step_queue_parked)
  with rn show ?case by (rule Cons.IH)
qed

lemma run_registry_queue:
  assumes "run evs s = Some (os, s')"
    and "tabs (pool s) = None \<longleftrightarrow> requireResolveTasks (pool s) = None"
  shows "tabs (pool s') = None \<longleftrightarrow> requireResolveTasks (pool s') = None"
  using assms
proof (induction evs arbitrary: s os)
  case Nil
  then show ?case by simp
next
  case (Cons e es)
  from Cons.prems(1) obtain o1 s1 o2
    where st: "step e s = Some (o1, s1)" and rn: "run es s1 = Some (o2, s')"
    by (rule run_Cons_Some)
  from st Cons.prems(2)
  have "tabs (pool s1) = None \<longleftrightarrow> requireResolveTasks (pool s1) = None"
    by (rule step_registry_queue)
  with rn show ?case by (rule Cons.IH)
qed

lemma exec_boot:
  assumes "exec (boot n sysFreePort launched tgs broken) evs = Some (os, s)"
  obtains p0 where "new n sysFreePort launched (Some tgs) broken = Inr p0"
    and "run evs (init p0 tgs) = Some (os, s)"
  using assms by (auto simp: exec_def boot_def split: sum.splits option.splits)

lemma new_fields:
  assumes "new n sysFreePort launched (Some tgs) broken = Inr p0"
  shows "requireResolveTasks p0 = Some []" and "tabs p0 \<noteq> None"
  using assms by (auto simp: new_def split: option.splits if_splits sum.splits)

lemma exec_append:
  "exec b (es @ fs) =
     (case exec b es of
        None \<Rightarrow> None
      | Some (o1, s1) \<Rightarrow>
          (case run fs s1 of None \<Rightarrow> None | Some (o2, s2) \<Rightarrow> Some (o1 @ o2, s2)))"
  by (simp add: exec_def run_append split: option.splits)

text \<open>Stores into the registry.\<close>

lemma update_fresh: "i \<notin> fst ` set ts \<Longrightarrow> AList.update i v ts = ts @ [(i, v)]"
  by (induction ts) auto

lemma set_update_uniform:
  "\<forall>kv\<in>set ts. snd kv = f (fst kv) \<Longrightarrow>
     set (AList.update k (f k) ts) = insert (k, f k) (set ts)"
  by (induction ts) auto

lemma register_pages_set:
  assumes "register_pages broken tgs acc = Inr ts" "distinct (map fst acc)"
    "\<forall>kv\<in>set acc. snd kv = \<lparr>free = True, client = Client (fst kv)\<rparr>"
  shows "distinct (map fst ts) \<and>
         set ts = set acc \<union> (\<lambda>tg. (tid tg, \<lparr>free = True, client = Client (tid tg)\<rparr>)) `
                              {tg \<in> set tgs. ttype tg = ''page''}"
  using assms
proof (induction broken tgs acc rule: register_pages.induct)
  case (1 broken ts)
  then show ?case by simp
next
  case (2 broken tg tgs acc)
  show ?case
  proof (cases "ttype tg = ''page''")
    case False
    with 2 show ?thesis by auto
  next
    case True
    let ?E = "\<lambda>i. \<lparr>free = True, client = Client i\<rparr>"
    let ?acc = "AList.update (tid tg) (?E (tid tg)) acc"
    from True "2.prems"(1) have nb: "tid tg \<notin> broken"
      and r: "register_pages broken tgs ?acc = Inr ts"
      by (auto split: if_splits)
    have d: "distinct (map fst ?acc)" using "2.prems"(2) by (simp add: distinct_update)
    have s: "set ?acc = insert (tid tg, ?E (tid tg)) (set acc)"
      using "2.prems"(3) by (rule set_update_uniform[where f = ?E])
    have u: "\<forall>kv\<in>set ?acc. snd kv = ?E (fst kv)" using "2.prems"(3) s by auto
    from "2.IH"(1)[OF True nb r d u] s True show ?thesis by auto
  qed
qed

subsection \<open>One tab for one caller\<close>

text \<open>
  Claim C1: over every sequence of \<^verbatim>\<open>require\<close> and \<^verbatim>\<open>release\<close> calls, a tab
  handed out by \<^verbatim>\<open>require\<close> is handed to no other caller before it is released.
  The source does not keep that. Here the pool has the one tab \<open>A\<close> and
  \<^verbatim>\<open>maxTab = 1\<close>. Call 1 gets \<open>A\<close>; call 2 finds nothing free and no room, and
  waits in the queue; \<^verbatim>\<open>release('A')\<close> (call 3) marks \<open>A\<close> free at line 159 and
  calls the \<^verbatim>\<open>resolve\<close> of call 2 at line 162, which only schedules the rest of
  call 2. A \<^verbatim>\<open>require\<close> that starts before call 2 goes on (call 4) finds \<open>A\<close> free
  at line 136 and takes it; then call 2 goes on at line 146 and takes \<open>A\<close> as well.
  After the one \<open>Freed\<close> the tab is handed out twice, and the two calls return the
  same client.
\<close>

theorem require_hands_one_tab_to_two_callers:
  "seen (exec (boot 1 (Some 9222) True [\<lparr>tid = ''A'', ttype = ''page''\<rparr>] {})
          [Call_require 1, Call_require 2, Resume 2, Call_release 3 ''A'',
           Settle_navigate 3 True, Call_require 4, Resume 2])
     = Some [Handed 1 ''A'', Enqueued 2, Freed ''A'', Resolved 2 ''A'',
             Handed 4 ''A'', Handed 2 ''A'']
   \<and> frame_at (exec (boot 1 (Some 9222) True [\<lparr>tid = ''A'', ttype = ''page''\<rparr>] {})
          [Call_require 1, Call_require 2, Resume 2, Call_release 3 ''A'',
           Settle_navigate 3 True, Call_require 4, Resume 2]) 4
     = Some (Done (Return_client (Client ''A'')))
   \<and> frame_at (exec (boot 1 (Some 9222) True [\<lparr>tid = ''A'', ttype = ''page''\<rparr>] {})
          [Call_require 1, Call_require 2, Resume 2, Call_release 3 ''A'',
           Settle_navigate 3 True, Call_require 4, Resume 2]) 2
     = Some (Done (Return_client (Client ''A'')))"
  by (simp add: run_defs piece_defs one_enat_def)

text \<open>
  The same happens where a tab is made: \<^verbatim>\<open>createTab\<close> stores the entry with
  \<^verbatim>\<open>free: true\<close> (line 123), and the \<^verbatim>\<open>require\<close> that awaited it marks it
  busy only when it goes on (line 147). A \<^verbatim>\<open>require\<close> that starts in between
  (call 3) takes the new tab \<open>B\<close>, and so does the one it was made for (call 2).
\<close>

lemma new_tab_taken_before_require_resumes:
  "seen (exec (boot 2 (Some 9222) True [\<lparr>tid = ''A'', ttype = ''page''\<rparr>] {})
          [Call_require 1, Call_require 2, Settle_New 2 (Some ''B''), Settle_connect 2 True,
           Call_require 3, Resume 2])
     = Some [Handed 1 ''A'', Handed 3 ''B'', Handed 2 ''B'']"
  by (simp add: run_defs piece_defs numeral_eq_enat)

subsection \<open>The number of tabs and \<^verbatim>\<open>maxTab\<close>\<close>

text \<open>
  Claim C2: in every reachable state the registry has at most \<^verbatim>\<open>maxTab\<close>
  entries. The source compares the count with \<^verbatim>\<open>maxTab\<close> at line 116 and stores
  the new entry at line 123, after two \<^verbatim>\<open>await\<close>s; a second \<^verbatim>\<open>createTab\<close>
  that starts in between sees the old count. Here \<^verbatim>\<open>maxTab = 2\<close> and the browser
  starts with the page \<open>A\<close>: call 1 takes \<open>A\<close>, calls 2 and 3 both find one entry,
  both ask for a new target, and the registry ends with three entries.
\<close>

theorem createTab_overlap_exceeds_maxTab:
  "pool_at (exec (boot 2 (Some 9222) True [\<lparr>tid = ''A'', ttype = ''page''\<rparr>] {})
          [Call_require 1, Call_require 2, Call_require 3,
           Settle_New 2 (Some ''B''), Settle_New 3 (Some ''C''),
           Settle_connect 2 True, Settle_connect 3 True])
     = Some \<lparr>port = Some 9222, chromeLauncher = Some (),
              tabs = Some [(''A'', \<lparr>free = False, client = Client ''A''\<rparr>),
                           (''B'', \<lparr>free = True, client = Client ''B''\<rparr>),
                           (''C'', \<lparr>free = True, client = Client ''C''\<rparr>)],
              maxTab = 2, requireResolveTasks = Some []\<rparr>"
  by (simp add: run_defs piece_defs numeral_eq_enat)

text \<open>
  \<^verbatim>\<open>new\<close> itself does not look at \<^verbatim>\<open>maxTab\<close>: every listed page is
  registered (lines 70--80).
\<close>

lemma new_registers_beyond_maxTab:
  "new 1 (Some 9222) True (Some [\<lparr>tid = ''A'', ttype = ''page''\<rparr>, \<lparr>tid = ''B'', ttype = ''page''\<rparr>]) {}
     = Inr \<lparr>port = Some 9222, chromeLauncher = Some (),
            tabs = Some [(''A'', \<lparr>free = True, client = Client ''A''\<rparr>),
                         (''B'', \<lparr>free = True, client = Client ''B''\<rparr>)],
            maxTab = 1, requireResolveTasks = Some []\<rparr>"
  by (simp add: new_def)

subsection \<open>The order of the waiting callers\<close>

text \<open>
  Claim C3: the callers parked on the queue are resolved first in, first out, and each
  release satisfies the caller that has waited longest. In every execution of a pool
  made by \<^verbatim>\<open>new\<close>:
  \<^item> the list of the callers resolved so far (line 162) is an initial part of the list
    of the callers enqueued so far (line 142), both in the order of time, and as long
    as the queue exists those enqueued and not yet resolved are the queue read from
    its end;
  \<^item> a \<^verbatim>\<open>release\<close> whose navigation succeeds while the queue is not empty
    resolves a caller: the last element of the queue, which is the earliest enqueued
    caller not yet resolved; that caller is taken from the queue and its
    \<^verbatim>\<open>require\<close> is resumed with the released id;
  \<^item> a \<^verbatim>\<open>require\<close> that finds no free entry and \<^verbatim>\<open>maxTab\<close> entries gets
    \<^verbatim>\<open>undefined\<close> from \<^verbatim>\<open>createTab\<close> and changes nothing yet;
  \<^item> a \<^verbatim>\<open>require\<close> resumed with \<^verbatim>\<open>undefined\<close> is put at the front of the
    queue and is parked.
\<close>

theorem waiters_resolved_in_arrival_order:
  assumes "seen (exec (boot n sysFreePort launched tgs broken) evs) = Some os"
  shows "prefix (resolved os) (enqueued os)
    \<and> (\<forall>p q. pool_at (exec (boot n sysFreePort launched tgs broken) evs) = Some p \<and>
              requireResolveTasks p = Some q \<longrightarrow> enqueued os = resolved os @ rev q)
    \<and> (\<forall>p q t i. pool_at (exec (boot n sysFreePort launched tgs broken) evs) = Some p \<and>
              requireResolveTasks p = Some q \<and> q \<noteq> [] \<and>
              frame_at (exec (boot n sysFreePort launched tgs broken) evs) t
                = Some (Release_navigate i) \<longrightarrow>
          last q = enqueued os ! length (resolved os)
        \<and> seen (exec (boot n sysFreePort launched tgs broken) (evs @ [Settle_navigate t True]))
            = Some (os @ [Freed i, Resolved (last q) i])
        \<and> frame_at (exec (boot n sysFreePort launched tgs broken)
                      (evs @ [Settle_navigate t True])) (last q)
            = Some (Require_resolved i)
        \<and> pool_at (exec (boot n sysFreePort launched tgs broken) (evs @ [Settle_navigate t True]))
            = Some ((set_free p i)\<lparr>requireResolveTasks := Some (butlast q)\<rparr>))
    \<and> (\<forall>p ts t. pool_at (exec (boot n sysFreePort launched tgs broken) evs) = Some p \<and>
              tabs p = Some ts \<and> find_free ts = None \<and> maxTab p \<le> enat (length ts) \<and>
              frame_at (exec (boot n sysFreePort launched tgs broken) evs) t = None \<longrightarrow>
          frame_at (exec (boot n sysFreePort launched tgs broken) (evs @ [Call_require t])) t
            = Some (Require_created None)
        \<and> pool_at (exec (boot n sysFreePort launched tgs broken) (evs @ [Call_require t]))
            = Some p)
    \<and> (\<forall>p q t. pool_at (exec (boot n sysFreePort launched tgs broken) evs) = Some p \<and>
              requireResolveTasks p = Some q \<and>
              frame_at (exec (boot n sysFreePort launched tgs broken) evs) t
                = Some (Require_created None) \<longrightarrow>
          seen (exec (boot n sysFreePort launched tgs broken) (evs @ [Resume t]))
            = Some (os @ [Enqueued t])
        \<and> frame_at (exec (boot n sysFreePort launched tgs broken) (evs @ [Resume t])) t
            = Some Require_parked
        \<and> pool_at (exec (boot n sysFreePort launched tgs broken) (evs @ [Resume t]))
            = Some (p\<lparr>requireResolveTasks := Some (t # q)\<rparr>))"
proof -
  let ?b = "boot n sysFreePort launched tgs broken"
  from assms obtain s where ex: "exec ?b evs = Some (os, s)"
    by (auto simp: seen_def)
  then obtain p0 where n: "new n sysFreePort launched (Some tgs) broken = Inr p0"
    and r: "run evs (init p0 tgs) = Some (os, s)"
    by (rule exec_boot)
  from n have q0: "requireResolveTasks (pool (init p0 tgs)) = Some []"
    by (simp add: new_fields init_def)
  from run_queue[OF r] q0 have inv:
    "case requireResolveTasks (pool s) of
       Some q' \<Rightarrow> enqueued os = resolved os @ rev q'
     | None \<Rightarrow> prefix (resolved os) (enqueued os)"
    by (simp split: option.splits)
  have pk: "case requireResolveTasks (pool s) of None \<Rightarrow> True
         | Some q \<Rightarrow> distinct q \<and> (\<forall>w\<in>set q. tasks s w = Some Require_parked)"
    using r by (rule run_queue_parked) (simp add: q0)
  have app: "exec ?b (evs @ [e]) =
      (case step e s of None \<Rightarrow> None | Some (o2, s2) \<Rightarrow> Some (os @ o2, s2))" for e
    by (simp add: exec_append ex run_single del: run.simps)
  have 1: "prefix (resolved os) (enqueued os)"
    using inv by (auto split: option.splits)
  have 2: "enqueued os = resolved os @ rev q" if "requireResolveTasks (pool s) = Some q" for q
    using inv that by simp
  have 3: "last q = enqueued os ! length (resolved os)
        \<and> seen (exec ?b (evs @ [Settle_navigate t True])) = Some (os @ [Freed i, Resolved (last q) i])
        \<and> frame_at (exec ?b (evs @ [Settle_navigate t True])) (last q) = Some (Require_resolved i)
        \<and> pool_at (exec ?b (evs @ [Settle_navigate t True]))
            = Some ((set_free (pool s) i)\<lparr>requireResolveTasks := Some (butlast q)\<rparr>)"
    if q: "requireResolveTasks (pool s) = Some q" "q \<noteq> []"
      and t: "tasks s t = Some (Release_navigate i)" for q t i
  proof -
    from q(2) have "rev q = last q # rev (butlast q)"
      by (metis append_butlast_last_id rev.simps(2) rev_rev_ident rev_swap append_Cons append_Nil)
    with 2[OF q(1)] have a: "last q = enqueued os ! length (resolved os)"
      by (simp add: nth_append)
    from pk q have "tasks s (last q) = Some Require_parked" by simp
    with t have ne: "last q \<noteq> t" by auto
    have sf: "requireResolveTasks (set_free (pool s) i) = Some q"
      using q(1) by (simp add: set_free_def split: option.splits)
    from q t ne sf a show ?thesis
      by (simp add: app seen_def frame_at_def pool_at_def release_finish_def settle_def Let_def)
  qed
  have 4: "frame_at (exec ?b (evs @ [Call_require t])) t = Some (Require_created None)
        \<and> pool_at (exec ?b (evs @ [Call_require t])) = Some (pool s)"
    if "tabs (pool s) = Some ts" "find_free ts = None" "maxTab (pool s) \<le> enat (length ts)"
      "tasks s t = None" for ts t
    using that
    by (simp add: app frame_at_def pool_at_def require_start_def in_require_def
        createTab_start_def settle_def)
  have 5: "seen (exec ?b (evs @ [Resume t])) = Some (os @ [Enqueued t])
        \<and> frame_at (exec ?b (evs @ [Resume t])) t = Some Require_parked
        \<and> pool_at (exec ?b (evs @ [Resume t]))
            = Some ((pool s)\<lparr>requireResolveTasks := Some (t # q)\<rparr>)"
    if "requireResolveTasks (pool s) = Some q" "tasks s t = Some (Require_created None)" for q t
    using that
    by (simp add: app seen_def frame_at_def pool_at_def require_park_def settle_def)
  have pa: "pool_at (exec ?b evs) = Some (pool s)" "\<And>t. frame_at (exec ?b evs) t = tasks s t"
    by (simp_all add: ex pool_at_def frame_at_def)
  show ?thesis
    unfolding pa using 1 2 3 4 5 by (intro conjI allI impI; (elim conjE)?; simp)
qed

text \<open>
  Call 1 holds the only tab, call 2 is parked, call 3 has found nothing and is about
  to be parked, and \<^verbatim>\<open>release('A')\<close> (call 4) awaits its navigation: the release
  resolves call 2, a \<^verbatim>\<open>require\<close> made now (call 5) has to wait, and call 3
  resumed goes to the front of the queue.
\<close>

theorem waiters_resolved_in_arrival_order_witness:
  "(let b = (boot 1 (Some 9222) True [\<lparr>tid = ''A'', ttype = ''page''\<rparr>] {});
        evs = [Call_require 1, Call_require 2, Resume 2, Call_require 3,
               Call_release 4 ''A''];
        os = [Handed 1 ''A'', Enqueued 2];
        p = \<lparr>port = Some 9222, chromeLauncher = Some (),
                tabs = Some [(''A'', \<lparr>free = False, client = Client ''A''\<rparr>)],
                maxTab = 1, requireResolveTasks = Some [2]\<rparr>
    in seen (exec b evs) = Some os
     \<and> pool_at (exec b evs) = Some p
     \<and> requireResolveTasks p = Some [2]
     \<and> prefix (resolved os) (enqueued os)
     \<and> enqueued os = resolved os @ rev [2]
     \<and> frame_at (exec b evs) 4 = Some (Release_navigate ''A'')
     \<and> last [2] = enqueued os ! length (resolved os)
     \<and> seen (exec b (evs @ [Settle_navigate 4 True]))
         = Some (os @ [Freed ''A'', Resolved 2 ''A''])
     \<and> frame_at (exec b (evs @ [Settle_navigate 4 True])) 2 = Some (Require_resolved ''A'')
     \<and> pool_at (exec b (evs @ [Settle_navigate 4 True])) = Some \<lparr>port = Some 9222, chromeLauncher = Some (),
                tabs = Some [(''A'', \<lparr>free = True, client = Client ''A''\<rparr>)],
                maxTab = 1, requireResolveTasks = Some []\<rparr>
     \<and> tabs p = Some [(''A'', \<lparr>free = False, client = Client ''A''\<rparr>)]
     \<and> find_free [(''A'', \<lparr>free = False, client = Client ''A''\<rparr>)] = None
     \<and> maxTab p \<le> enat (length [(''A'', \<lparr>free = False, client = Client ''A''\<rparr>)])
     \<and> frame_at (exec b evs) 5 = None
     \<and> frame_at (exec b (evs @ [Call_require 5])) 5 = Some (Require_created None)
     \<and> pool_at (exec b (evs @ [Call_require 5])) = Some p
     \<and> frame_at (exec b evs) 3 = Some (Require_created None)
     \<and> seen (exec b (evs @ [Resume 3])) = Some (os @ [Enqueued 3])
     \<and> frame_at (exec b (evs @ [Resume 3])) 3 = Some Require_parked
     \<and> pool_at (exec b (evs @ [Resume 3])) = Some \<lparr>port = Some 9222, chromeLauncher = Some (),
                tabs = Some [(''A'', \<lparr>free = False, client = Client ''A''\<rparr>)],
                maxTab = 1, requireResolveTasks = Some [3, 2]\<rparr>)"
proof -
  let ?evs = "[Call_require 1, Call_require 2, Resume 2, Call_require 3, Call_release 4 ''A'']"
  have h: "seen (exec (boot 1 (Some 9222) True [\<lparr>tid = ''A'', ttype = ''page''\<rparr>] {}) ?evs) = Some [Handed 1 ''A'', Enqueued 2]"
    and p: "pool_at (exec (boot 1 (Some 9222) True [\<lparr>tid = ''A'', ttype = ''page''\<rparr>] {}) ?evs) = Some \<lparr>port = Some 9222, chromeLauncher = Some (),
                tabs = Some [(''A'', \<lparr>free = False, client = Client ''A''\<rparr>)],
                maxTab = 1, requireResolveTasks = Some [2]\<rparr>"
    and f4: "frame_at (exec (boot 1 (Some 9222) True [\<lparr>tid = ''A'', ttype = ''page''\<rparr>] {}) ?evs) 4 = Some (Release_navigate ''A'')"
    and f5: "frame_at (exec (boot 1 (Some 9222) True [\<lparr>tid = ''A'', ttype = ''page''\<rparr>] {}) ?evs) 5 = None"
    and f3: "frame_at (exec (boot 1 (Some 9222) True [\<lparr>tid = ''A'', ttype = ''page''\<rparr>] {}) ?evs) 3 = Some (Require_created None)"
    by (simp_all add: run_defs piece_defs one_enat_def)
  note a = waiters_resolved_in_arrival_order [OF h]
  from a have 1: "prefix (resolved [Handed 1 ''A'', Enqueued 2]) (enqueued [Handed 1 ''A'', Enqueued 2])"
    by blast
  from a p have 2: "enqueued [Handed 1 ''A'', Enqueued 2]
      = resolved [Handed 1 ''A'', Enqueued 2] @ rev [2]"
    by simp
  from a p f4 have 3:
    "last [2] = enqueued [Handed 1 ''A'', Enqueued 2] ! length (resolved [Handed 1 ''A'', Enqueued 2])
     \<and> seen (exec (boot 1 (Some 9222) True [\<lparr>tid = ''A'', ttype = ''page''\<rparr>] {}) (?evs @ [Settle_navigate 4 True]))
         = Some ([Handed 1 ''A'', Enqueued 2] @ [Freed ''A'', Resolved (last [2]) ''A''])
     \<and> frame_at (exec (boot 1 (Some 9222) True [\<lparr>tid = ''A'', ttype = ''page''\<rparr>] {}) (?evs @ [Settle_navigate 4 True])) (last [2])
         = Some (Require_resolved ''A'')
     \<and> pool_at (exec (boot 1 (Some 9222) True [\<lparr>tid = ''A'', ttype = ''page''\<rparr>] {}) (?evs @ [Settle_navigate 4 True]))
         = Some ((set_free \<lparr>port = Some 9222, chromeLauncher = Some (),
                tabs = Some [(''A'', \<lparr>free = False, client = Client ''A''\<rparr>)],
                maxTab = 1, requireResolveTasks = Some [2]\<rparr> ''A'')\<lparr>requireResolveTasks := Some (butlast [2])\<rparr>)"
    by simp
  from a p f5 have 4:
    "frame_at (exec (boot 1 (Some 9222) True [\<lparr>tid = ''A'', ttype = ''page''\<rparr>] {}) (?evs @ [Call_require 5])) 5 = Some (Require_created None)
     \<and> pool_at (exec (boot 1 (Some 9222) True [\<lparr>tid = ''A'', ttype = ''page''\<rparr>] {}) (?evs @ [Call_require 5])) = Some \<lparr>port = Some 9222, chromeLauncher = Some (),
                tabs = Some [(''A'', \<lparr>free = False, client = Client ''A''\<rparr>)],
                maxTab = 1, requireResolveTasks = Some [2]\<rparr>"
    by (simp add: find_free_def one_enat_def)
  from a p f3 have 5:
    "seen (exec (boot 1 (Some 9222) True [\<lparr>tid = ''A'', ttype = ''page''\<rparr>] {}) (?evs @ [Resume 3])) = Some ([Handed 1 ''A'', Enqueued 2] @ [Enqueued 3])
     \<and> frame_at (exec (boot 1 (Some 9222) True [\<lparr>tid = ''A'', ttype = ''page''\<rparr>] {}) (?evs @ [Resume 3])) 3 = Some Require_parked
     \<and> pool_at (exec (boot 1 (Some 9222) True [\<lparr>tid = ''A'', ttype = ''page''\<rparr>] {}) (?evs @ [Resume 3]))
         = Some (\<lparr>port = Some 9222, chromeLauncher = Some (),
                tabs = Some [(''A'', \<lparr>free = False, client = Client ''A''\<rparr>)],
                maxTab = 1, requireResolveTasks = Some [2]\<rparr>\<lparr>requireResolveTasks := Some (3 # [2])\<rparr>)"
    by simp
  show ?thesis
    unfolding Let_def using h p f4 f5 f3 1 2 3 4 5
    by (simp add: find_free_def one_enat_def set_free_def)
qed

subsection \<open>Release with callers waiting\<close>

text \<open>
  Claim C4: when \<^verbatim>\<open>release\<close> runs with a caller waiting, the entry is never free
  where a third caller can see it; it stays busy and goes to the oldest waiter. The
  source marks the entry free first (line 159, whatever the queue holds) and only
  then calls \<^verbatim>\<open>resolve\<close> (line 162); the waiter marks it busy again when it goes
  on (line 147). In between the registry shows \<open>A\<close> free while call 2 has been
  resolved with \<open>A\<close>, and a \<^verbatim>\<open>require\<close> that starts there (call 4) gets \<open>A\<close>.
\<close>

theorem release_marks_tab_free_before_waiter_resumes:
  "pool_at (exec (boot 1 (Some 9222) True [\<lparr>tid = ''A'', ttype = ''page''\<rparr>] {})
          [Call_require 1, Call_require 2, Resume 2, Call_release 3 ''A'',
           Settle_navigate 3 True])
     = Some \<lparr>port = Some 9222, chromeLauncher = Some (),
                tabs = Some [(''A'', \<lparr>free = True, client = Client ''A''\<rparr>)],
                maxTab = 1, requireResolveTasks = Some []\<rparr>
   \<and> frame_at (exec (boot 1 (Some 9222) True [\<lparr>tid = ''A'', ttype = ''page''\<rparr>] {})
          [Call_require 1, Call_require 2, Resume 2, Call_release 3 ''A'',
           Settle_navigate 3 True]) 2
     = Some (Require_resolved ''A'')
   \<and> frame_at (exec (boot 1 (Some 9222) True [\<lparr>tid = ''A'', ttype = ''page''\<rparr>] {})
          [Call_require 1, Call_require 2, Resume 2, Call_release 3 ''A'',
           Settle_navigate 3 True, Call_require 4]) 4
     = Some (Done (Return_client (Client ''A'')))"
  by (simp add: run_defs piece_defs one_enat_def)

subsection \<open>Release of a tab that is unknown or free\<close>

text \<open>
  Claim C5, as amended: \<^verbatim>\<open>release\<close> with an id that has no entry (or on a pool
  without registry) throws a \<^verbatim>\<open>TypeError\<close> at line 158 and changes no field of the
  pool. \<^verbatim>\<open>release\<close> with the id of an entry that is already free does not fail:
  it navigates, sets \<^verbatim>\<open>free\<close> to \<^verbatim>\<open>true\<close> again and returns normally, in
  every state that an execution of a pool made by \<^verbatim>\<open>new\<close> reaches, and the
  registry is as before. With an empty queue the whole pool is as before; with callers
  in the queue the one that has waited longest is taken from it and resolved with the
  id, as by any other release.
\<close>

theorem release_unknown_throws_free_returns:
  assumes "tasks s t = None"
  shows "(entry (pool s) i = None \<longrightarrow>
            step (Call_release t i) s
              = Some ([], s\<lparr>tasks := (tasks s)(t \<mapsto> Done (Throw TypeError))\<rparr>))
       \<and> (entry (pool s) j = Some tb \<and> free tb \<and> requireResolveTasks (pool s) = Some [] \<longrightarrow>
            run [Call_release t j, Settle_navigate t True] s
              = Some ([Freed j], s\<lparr>tasks := (tasks s)(t \<mapsto> Done Return_void)\<rparr>))
       \<and> (entry (pool s) j = Some tb \<and> free tb \<and> requireResolveTasks (pool s) = Some q \<and>
            q \<noteq> [] \<longrightarrow>
            run [Call_release t j, Settle_navigate t True] s
              = Some ([Freed j, Resolved (last q) j],
                      s\<lparr>pool := (pool s)\<lparr>requireResolveTasks := Some (butlast q)\<rparr>,
                        tasks := (tasks s)(last q \<mapsto> Require_resolved j,
                                           t \<mapsto> Done Return_void)\<rparr>))
       \<and> (pool_at (exec (boot n sysFreePort launched tgs broken) evs) = Some p \<and>
            entry p k = Some tc \<and> free tc \<and>
            frame_at (exec (boot n sysFreePort launched tgs broken) evs) u = None \<longrightarrow>
            frame_at (exec (boot n sysFreePort launched tgs broken)
                        (evs @ [Call_release u k, Settle_navigate u True])) u
              = Some (Done Return_void)
          \<and> map_option tabs (pool_at (exec (boot n sysFreePort launched tgs broken)
                        (evs @ [Call_release u k, Settle_navigate u True])))
              = Some (tabs p))"
proof (intro conjI impI)
  assume "entry (pool s) i = None"
  with assms show "step (Call_release t i) s
      = Some ([], s\<lparr>tasks := (tasks s)(t \<mapsto> Done (Throw TypeError))\<rparr>)"
    by (auto simp: entry_def release_start_def settle_def split: option.splits)
next
  assume a: "entry (pool s) j = Some tb \<and> free tb \<and> requireResolveTasks (pool s) = Some []"
  then obtain ts where ts: "tabs (pool s) = Some ts" "map_of ts j = Some tb"
    by (auto simp: entry_def split: option.splits)
  from a have "tb\<lparr>free := True\<rparr> = tb" by simp
  with ts have "set_free (pool s) j = pool s"
    by (simp add: set_free_def update_triv)
  with assms ts a show "run [Call_release t j, Settle_navigate t True] s
      = Some ([Freed j], s\<lparr>tasks := (tasks s)(t \<mapsto> Done Return_void)\<rparr>)"
    by (simp add: release_start_def release_finish_def settle_def)
next
  assume a: "entry (pool s) j = Some tb \<and> free tb \<and> requireResolveTasks (pool s) = Some q \<and>
    q \<noteq> []"
  then obtain ts where ts: "tabs (pool s) = Some ts" "map_of ts j = Some tb"
    by (auto simp: entry_def split: option.splits)
  from a have "tb\<lparr>free := True\<rparr> = tb" by simp
  with ts have "set_free (pool s) j = pool s"
    by (simp add: set_free_def update_triv)
  with assms ts a show "run [Call_release t j, Settle_navigate t True] s
      = Some ([Freed j, Resolved (last q) j],
              s\<lparr>pool := (pool s)\<lparr>requireResolveTasks := Some (butlast q)\<rparr>,
                tasks := (tasks s)(last q \<mapsto> Require_resolved j, t \<mapsto> Done Return_void)\<rparr>)"
    by (simp add: release_start_def release_finish_def settle_def)
next
  let ?b = "boot n sysFreePort launched tgs broken"
  assume a: "pool_at (exec ?b evs) = Some p \<and> entry p k = Some tc \<and> free tc \<and>
    frame_at (exec ?b evs) u = None"
  then obtain os s0 where ex: "exec ?b evs = Some (os, s0)" and p: "pool s0 = p"
    by (auto simp: pool_at_def)
  with a have u: "tasks s0 u = None" by (simp add: frame_at_def)
  from ex obtain p0 where n: "new n sysFreePort launched (Some tgs) broken = Inr p0"
    and r: "run evs (init p0 tgs) = Some (os, s0)"
    by (rule exec_boot)
  have "tabs (pool s0) = None \<longleftrightarrow> requireResolveTasks (pool s0) = None"
    using r by (rule run_registry_queue) (use n in \<open>simp add: new_fields init_def\<close>)
  moreover from a p obtain ts where ts: "tabs (pool s0) = Some ts" "map_of ts k = Some tc"
    by (auto simp: entry_def split: option.splits)
  ultimately obtain q0 where q0: "requireResolveTasks (pool s0) = Some q0" by auto
  from a have "tc\<lparr>free := True\<rparr> = tc" by simp
  with ts have sf: "set_free (pool s0) k = pool s0"
    by (simp add: set_free_def update_triv)
  have "frame_at (exec ?b (evs @ [Call_release u k, Settle_navigate u True])) u
          = Some (Done Return_void)
      \<and> map_option tabs (pool_at (exec ?b (evs @ [Call_release u k, Settle_navigate u True])))
          = Some (tabs (pool s0))"
    using u ts q0 sf
    by (cases "q0 = []")
      (simp_all add: exec_append ex frame_at_def pool_at_def release_start_def
        release_finish_def settle_def Let_def)
  with p show "frame_at (exec ?b (evs @ [Call_release u k, Settle_navigate u True])) u
          = Some (Done Return_void)"
    and "map_option tabs (pool_at (exec ?b (evs @ [Call_release u k, Settle_navigate u True])))
          = Some (tabs p)"
    by simp_all
qed

text \<open>
  Claim C5 as it was stated asks for an error when the entry is already free. On the
  pool just made, whose tab \<open>A\<close> is free, \<^verbatim>\<open>release('A')\<close> returns normally.
\<close>

theorem release_of_free_tab_returns_normally:
  "frame_at (exec (boot 1 (Some 9222) True [\<lparr>tid = ''A'', ttype = ''page''\<rparr>] {}) [Call_release 1 ''A'', Settle_navigate 1 True]) 1
     = Some (Done Return_void)"
  by (simp add: run_defs piece_defs one_enat_def)

text \<open>
  The amended claim on the pool just made (the unknown id \<open>B\<close>, the free tab \<open>A\<close>),
  and where \<open>A\<close> is free while call 2 is parked: call 2 found \<open>A\<close> busy, \<open>A\<close> was
  released before call 2 went on, and call 2 was parked all the same.
\<close>

theorem release_unknown_throws_free_returns_witness:
  "(let s = init \<lparr>port = Some 9222, chromeLauncher = Some (),
                tabs = Some [(''A'', \<lparr>free = True, client = Client ''A''\<rparr>)],
                maxTab = 1, requireResolveTasks = Some []\<rparr> [\<lparr>tid = ''A'', ttype = ''page''\<rparr>];
        s2 = \<lparr>pool = \<lparr>port = Some 9222, chromeLauncher = Some (),
                tabs = Some [(''A'', \<lparr>free = True, client = Client ''A''\<rparr>)],
                maxTab = 1, requireResolveTasks = Some [2]\<rparr>,
              browser = [''A''],
              tasks = [1 \<mapsto> Done (Return_client (Client ''A'')), 2 \<mapsto> Require_parked,
                       3 \<mapsto> Done Return_void]\<rparr>;
        b = (boot 1 (Some 9222) True [\<lparr>tid = ''A'', ttype = ''page''\<rparr>] {});
        evs = [Call_require 1, Call_require 2, Call_release 3 ''A'', Settle_navigate 3 True,
               Resume 2]
    in tasks s 1 = None
     \<and> entry (pool s) ''B'' = None
     \<and> step (Call_release 1 ''B'') s
         = Some ([], s\<lparr>tasks := (tasks s)(1 \<mapsto> Done (Throw TypeError))\<rparr>)
     \<and> entry (pool s) ''A'' = Some \<lparr>free = True, client = Client ''A''\<rparr>
     \<and> requireResolveTasks (pool s) = Some []
     \<and> run [Call_release 1 ''A'', Settle_navigate 1 True] s
         = Some ([Freed ''A''], s\<lparr>tasks := (tasks s)(1 \<mapsto> Done Return_void)\<rparr>)
     \<and> tasks s2 4 = None
     \<and> entry (pool s2) ''A'' = Some \<lparr>free = True, client = Client ''A''\<rparr>
     \<and> requireResolveTasks (pool s2) = Some [2]
     \<and> run [Call_release 4 ''A'', Settle_navigate 4 True] s2
         = Some ([Freed ''A'', Resolved 2 ''A''],
                 s2\<lparr>pool := (pool s2)\<lparr>requireResolveTasks := Some []\<rparr>,
                    tasks := (tasks s2)(2 \<mapsto> Require_resolved ''A'',
                                        4 \<mapsto> Done Return_void)\<rparr>)
     \<and> pool_at (exec b evs) = Some \<lparr>port = Some 9222, chromeLauncher = Some (),
                tabs = Some [(''A'', \<lparr>free = True, client = Client ''A''\<rparr>)],
                maxTab = 1, requireResolveTasks = Some [2]\<rparr>
     \<and> frame_at (exec b evs) 4 = None
     \<and> frame_at (exec b (evs @ [Call_release 4 ''A'', Settle_navigate 4 True])) 4
         = Some (Done Return_void)
     \<and> map_option tabs (pool_at (exec b (evs @ [Call_release 4 ''A'', Settle_navigate 4 True])))
         = Some (Some [(''A'', \<lparr>free = True, client = Client ''A''\<rparr>)]))"
proof -
  let ?s = "init \<lparr>port = Some 9222, chromeLauncher = Some (),
                tabs = Some [(''A'', \<lparr>free = True, client = Client ''A''\<rparr>)],
                maxTab = 1, requireResolveTasks = Some []\<rparr> [\<lparr>tid = ''A'', ttype = ''page''\<rparr>]"
  let ?s2 = "\<lparr>pool = \<lparr>port = Some 9222, chromeLauncher = Some (),
                tabs = Some [(''A'', \<lparr>free = True, client = Client ''A''\<rparr>)],
                maxTab = 1, requireResolveTasks = Some [2]\<rparr>,
              browser = [''A''],
              tasks = [1 \<mapsto> Done (Return_client (Client ''A'')), 2 \<mapsto> Require_parked,
                       3 \<mapsto> Done Return_void]\<rparr>"
  let ?evs = "[Call_require 1, Call_require 2, Call_release 3 ''A'', Settle_navigate 3 True,
               Resume 2]"
  have p: "pool_at (exec (boot 1 (Some 9222) True [\<lparr>tid = ''A'', ttype = ''page''\<rparr>] {}) ?evs) = Some \<lparr>port = Some 9222, chromeLauncher = Some (),
                tabs = Some [(''A'', \<lparr>free = True, client = Client ''A''\<rparr>)],
                maxTab = 1, requireResolveTasks = Some [2]\<rparr>"
    and f: "frame_at (exec (boot 1 (Some 9222) True [\<lparr>tid = ''A'', ttype = ''page''\<rparr>] {}) ?evs) 4 = None"
    by (simp_all add: run_defs piece_defs one_enat_def)
  have t1: "tasks ?s 1 = None" and t2: "tasks ?s2 4 = None" by (simp_all add: init_def)
  note a = release_unknown_throws_free_returns [OF t1, of "''B''" "''A''" "\<lparr>free = True, client = Client ''A''\<rparr>" "[2]"
      1 "Some 9222" True "[\<lparr>tid = ''A'', ttype = ''page''\<rparr>]" "{}" ?evs
      "\<lparr>port = Some 9222, chromeLauncher = Some (),
                tabs = Some [(''A'', \<lparr>free = True, client = Client ''A''\<rparr>)],
                maxTab = 1, requireResolveTasks = Some [2]\<rparr>" "''A''" "\<lparr>free = True, client = Client ''A''\<rparr>" 4]
  note b = release_unknown_throws_free_returns [OF t2, of "''B''" "''A''" "\<lparr>free = True, client = Client ''A''\<rparr>" "[2]"
      1 "Some 9222" True "[\<lparr>tid = ''A'', ttype = ''page''\<rparr>]" "{}" ?evs
      "\<lparr>port = Some 9222, chromeLauncher = Some (),
                tabs = Some [(''A'', \<lparr>free = True, client = Client ''A''\<rparr>)],
                maxTab = 1, requireResolveTasks = Some [2]\<rparr>" "''A''" "\<lparr>free = True, client = Client ''A''\<rparr>" 4]
  show ?thesis
    unfolding Let_def using a b p f by (simp add: init_def entry_def)
qed

subsection \<open>Destruction with callers waiting\<close>

text \<open>
  Claim C6, as amended: when \<^verbatim>\<open>destroyPoll\<close> completes, \<^verbatim>\<open>tabs\<close>,
  \<^verbatim>\<open>chromeLauncher\<close>, \<^verbatim>\<open>port\<close> and \<^verbatim>\<open>requireResolveTasks\<close> are
  \<^verbatim>\<open>null\<close> and stay so; a caller that was parked in the queue is neither resolved
  nor rejected, then or by any later step: it stays suspended at line 141.
\<close>

theorem destroyPoll_clears_fields_waiters_stay_parked:
  assumes "tasks s d = Some Destroy_kill" and "tasks s w = Some Require_parked"
    and "run (Settle_kill d True # evs) s \<noteq> None"
  shows "pool_at (run (Settle_kill d True # evs) s) = Some (clear (pool s))
       \<and> destroyed (clear (pool s))
       \<and> frame_at (run (Settle_kill d True # evs) s) w = Some Require_parked"
proof -
  let ?s1 = "settle (s\<lparr>pool := clear (pool s)\<rparr>) d (Done Return_void)"
  from assms(3) obtain os s' where r: "run (Settle_kill d True # evs) s = Some (os, s')"
    by auto
  then obtain o2 where r2: "run evs ?s1 = Some (o2, s')"
    using kill_destroys[OF assms(1)] by (auto split: option.splits)
  have d: "destroyed (pool ?s1)" by (simp add: settle_def destroyed_clear)
  have w: "tasks ?s1 w = Some Require_parked" using assms(1,2) by (auto simp: settle_def)
  have "pool s' = clear (pool s)" using run_destroyed[OF r2 d] by (simp add: settle_def)
  moreover have "tasks s' w = Some Require_parked" using r2 d w by (rule run_parked)
  ultimately show ?thesis using r by (simp add: pool_at_def frame_at_def destroyed_clear)
qed

text \<open>
  Claim C6 as it was stated asks that a parked caller receives a failure. Call 2 is
  parked when \<^verbatim>\<open>destroyPoll\<close> (call 3) completes, and it is still parked after:
  lines 172--175 drop the queue without calling what is in it.
\<close>

theorem destroyPoll_parked_waiter_not_failed:
  "frame_at (exec (boot 1 (Some 9222) True [\<lparr>tid = ''A'', ttype = ''page''\<rparr>] {})
      [Call_require 1, Call_require 2, Resume 2, Call_destroyPoll 3, Settle_kill 3 True]) 2
     = Some Require_parked
   \<and> frame_at (exec (boot 1 (Some 9222) True [\<lparr>tid = ''A'', ttype = ''page''\<rparr>] {})
      [Call_require 1, Call_require 2, Resume 2, Call_destroyPoll 3, Settle_kill 3 True]) 3
     = Some (Done Return_void)"
  by (simp add: run_defs piece_defs one_enat_def)

text \<open>
  The amended claim where call 2 is parked and \<^verbatim>\<open>destroyPoll\<close> (call 3) is about
  to complete; three more calls follow.
\<close>

theorem destroyPoll_clears_fields_waiters_stay_parked_witness:
  "(let s = \<lparr>pool = \<lparr>port = Some 9222, chromeLauncher = Some (),
                tabs = Some [(''A'', \<lparr>free = False, client = Client ''A''\<rparr>)],
                maxTab = 1, requireResolveTasks = Some [2]\<rparr>,
             browser = [''A''],
             tasks = [1 \<mapsto> Done (Return_client (Client ''A'')), 2 \<mapsto> Require_parked,
                      3 \<mapsto> Destroy_kill]\<rparr>;
        evs = [Settle_kill 3 True, Call_release 4 ''A'', Call_require 5, Call_createTab 6]
    in tasks s 3 = Some Destroy_kill
     \<and> tasks s 2 = Some Require_parked
     \<and> run evs s \<noteq> None
     \<and> pool_at (run evs s)
         = Some \<lparr>port = None, chromeLauncher = None, tabs = None, maxTab = 1,
                  requireResolveTasks = None\<rparr>
     \<and> frame_at (run evs s) 2 = Some Require_parked)"
  using destroyPoll_clears_fields_waiters_stay_parked
    [of "\<lparr>pool = \<lparr>port = Some 9222, chromeLauncher = Some (),
                tabs = Some [(''A'', \<lparr>free = False, client = Client ''A''\<rparr>)],
                maxTab = 1, requireResolveTasks = Some [2]\<rparr>,
             browser = [''A''],
             tasks = [1 \<mapsto> Done (Return_client (Client ''A'')), 2 \<mapsto> Require_parked,
                      3 \<mapsto> Destroy_kill]\<rparr>" 3 2
        "[Call_release 4 ''A'', Call_require 5, Call_createTab 6]"]
  unfolding Let_def by (simp add: piece_defs pool_at_def frame_at_def)

subsection \<open>\<^verbatim>\<open>createTab\<close> at and below \<^verbatim>\<open>maxTab\<close>\<close>

text \<open>
  Claim C7: with at least \<^verbatim>\<open>maxTab\<close> entries in the registry, \<^verbatim>\<open>createTab\<close>
  returns \<^verbatim>\<open>undefined\<close>, raises nothing and registers nothing; with fewer, it asks
  the browser for a target, connects to it, appends it to the registry as a free entry
  and returns its id.
\<close>

theorem createTab_at_and_below_capacity:
  assumes "tabs (pool s) = Some ts" and "tasks s t = None"
  shows "(maxTab (pool s) \<le> enat (length ts) \<longrightarrow>
            step (Call_createTab t) s
              = Some ([], s\<lparr>tasks := (tasks s)(t \<mapsto> Done (Return_id None))\<rparr>))
       \<and> (enat (length ts) < maxTab (pool s) \<and> i \<notin> set (browser s) \<and> i \<notin> fst ` set ts \<longrightarrow>
            run [Call_createTab t, Settle_New t (Some i), Settle_connect t True] s
              = Some ([], s\<lparr>pool := (pool s)\<lparr>tabs :=
                               Some (ts @ [(i, \<lparr>free = True, client = Client i\<rparr>)])\<rparr>,
                            browser := browser s @ [i],
                            tasks := (tasks s)(t \<mapsto> Done (Return_id (Some i)))\<rparr>))"
  using assms
  by (auto simp: piece_defs update_fresh)

text \<open>One busy tab: with \<^verbatim>\<open>maxTab = 1\<close> nothing is made, with \<^verbatim>\<open>maxTab = 2\<close> the tab \<open>B\<close> is.\<close>

theorem createTab_at_and_below_capacity_witness:
  "(let s = init \<lparr>port = Some 9222, chromeLauncher = Some (),
                tabs = Some [(''A'', \<lparr>free = False, client = Client ''A''\<rparr>)],
                maxTab = 1, requireResolveTasks = Some []\<rparr>
                 [\<lparr>tid = ''A'', ttype = ''page''\<rparr>];
        s2 = init \<lparr>port = Some 9222, chromeLauncher = Some (),
                tabs = Some [(''A'', \<lparr>free = False, client = Client ''A''\<rparr>)],
                maxTab = 2, requireResolveTasks = Some []\<rparr>
                 [\<lparr>tid = ''A'', ttype = ''page''\<rparr>]
    in tabs (pool s) = Some [(''A'', \<lparr>free = False, client = Client ''A''\<rparr>)]
     \<and> tasks s 7 = None
     \<and> maxTab (pool s) \<le> enat (length [(''A'', \<lparr>free = False, client = Client ''A''\<rparr>)])
     \<and> step (Call_createTab 7) s
         = Some ([], s\<lparr>tasks := (tasks s)(7 \<mapsto> Done (Return_id None))\<rparr>)
     \<and> tabs (pool s2) = Some [(''A'', \<lparr>free = False, client = Client ''A''\<rparr>)]
     \<and> tasks s2 7 = None
     \<and> enat (length [(''A'', \<lparr>free = False, client = Client ''A''\<rparr>)]) < maxTab (pool s2)
     \<and> ''B'' \<notin> set (browser s2)
     \<and> ''B'' \<notin> fst ` set [(''A'', \<lparr>free = False, client = Client ''A''\<rparr>)]
     \<and> run [Call_createTab 7, Settle_New 7 (Some ''B''), Settle_connect 7 True] s2
         = Some ([], s2\<lparr>pool := (pool s2)\<lparr>tabs :=
                          Some [(''A'', \<lparr>free = False, client = Client ''A''\<rparr>),
                                (''B'', \<lparr>free = True, client = Client ''B''\<rparr>)]\<rparr>,
                        browser := browser s2 @ [''B''],
                        tasks := (tasks s2)(7 \<mapsto> Done (Return_id (Some ''B'')))\<rparr>))"
  using createTab_at_and_below_capacity
    [of "init \<lparr>port = Some 9222, chromeLauncher = Some (),
                tabs = Some [(''A'', \<lparr>free = False, client = Client ''A''\<rparr>)],
                maxTab = 1, requireResolveTasks = Some []\<rparr>
                 [\<lparr>tid = ''A'', ttype = ''page''\<rparr>]" "[(''A'', \<lparr>free = False, client = Client ''A''\<rparr>)]" 7 "''B''"]
    createTab_at_and_below_capacity
    [of "init \<lparr>port = Some 9222, chromeLauncher = Some (),
                tabs = Some [(''A'', \<lparr>free = False, client = Client ''A''\<rparr>)],
                maxTab = 2, requireResolveTasks = Some []\<rparr>
                 [\<lparr>tid = ''A'', ttype = ''page''\<rparr>]" "[(''A'', \<lparr>free = False, client = Client ''A''\<rparr>)]" 7 "''B''"]
  unfolding Let_def by (simp add: init_def one_enat_def numeral_eq_enat)

subsection \<open>Construction\<close>

text \<open>
  Claim C8: the pool made by \<^verbatim>\<open>new\<close> has as entries exactly the listed targets of
  type \<^verbatim>\<open>page\<close>, each once and each free, and its queue is empty.
\<close>

theorem new_registers_exactly_the_pages:
  assumes "new n sysFreePort launched (Some tgs) broken = Inr p"
  shows "(\<exists>ts. tabs p = Some ts \<and> distinct (map fst ts) \<and>
              set ts = (\<lambda>tg. (tid tg, \<lparr>free = True, client = Client (tid tg)\<rparr>)) `
                         {tg \<in> set tgs. ttype tg = ''page''})
       \<and> requireResolveTasks p = Some []"
proof -
  from assms obtain ts where r: "register_pages broken tgs [] = Inr ts"
    and p: "tabs p = Some ts" "requireResolveTasks p = Some []"
    by (auto simp: new_def split: option.splits if_splits sum.splits)
  from register_pages_set[OF r] p show ?thesis by simp
qed

text \<open>Two pages and a background page between them.\<close>

theorem new_registers_exactly_the_pages_witness:
  "new 3 (Some 9222) True
       (Some [\<lparr>tid = ''A'', ttype = ''page''\<rparr>, \<lparr>tid = ''S'', ttype = ''background_page''\<rparr>,
              \<lparr>tid = ''B'', ttype = ''page''\<rparr>]) {}
     = Inr \<lparr>port = Some 9222, chromeLauncher = Some (),
            tabs = Some [(''A'', \<lparr>free = True, client = Client ''A''\<rparr>),
                         (''B'', \<lparr>free = True, client = Client ''B''\<rparr>)],
            maxTab = 3, requireResolveTasks = Some []\<rparr>
   \<and> set [(''A'', \<lparr>free = True, client = Client ''A''\<rparr>),
          (''B'', \<lparr>free = True, client = Client ''B''\<rparr>)]
       = (\<lambda>tg. (tid tg, \<lparr>free = True, client = Client (tid tg)\<rparr>)) `
           {tg \<in> set [\<lparr>tid = ''A'', ttype = ''page''\<rparr>, \<lparr>tid = ''S'', ttype = ''background_page''\<rparr>,
                       \<lparr>tid = ''B'', ttype = ''page''\<rparr>]. ttype tg = ''page''}"
proof -
  have h: "new 3 (Some 9222) True
       (Some [\<lparr>tid = ''A'', ttype = ''page''\<rparr>, \<lparr>tid = ''S'', ttype = ''background_page''\<rparr>,
              \<lparr>tid = ''B'', ttype = ''page''\<rparr>]) {}
     = Inr \<lparr>port = Some 9222, chromeLauncher = Some (),
            tabs = Some [(''A'', \<lparr>free = True, client = Client ''A''\<rparr>),
                         (''B'', \<lparr>free = True, client = Client ''B''\<rparr>)],
            maxTab = 3, requireResolveTasks = Some []\<rparr>"
    by (simp add: new_def)
  from new_registers_exactly_the_pages[OF h] h show ?thesis by simp
qed

subsection \<open>A navigation that fails during release\<close>

text \<open>
  Claim C9, as amended: when the navigation to the blank page fails, \<^verbatim>\<open>release\<close>
  is rejected with that failure and nothing else happens: line 159 is not reached, the
  entry keeps the state it had, no waiter is resolved, and every field of the pool is
  as before.
\<close>

theorem failed_navigation_rejects_pool_unchanged:
  "(tasks s t = Some (Release_navigate i) \<longrightarrow>
      step (Settle_navigate t False) s
        = Some ([], s\<lparr>tasks := (tasks s)(t \<mapsto> Done (Throw Rejected))\<rparr>))
   \<and> (tasks s u = None \<and> entry (pool s) j = Some tb \<longrightarrow>
      run [Call_release u j, Settle_navigate u False] s
        = Some ([], s\<lparr>tasks := (tasks s)(u \<mapsto> Done (Throw Rejected))\<rparr>))"
  by (auto simp: settle_def entry_def release_start_def split: option.splits)

text \<open>
  Claim C9 as it was stated asks that the entry is returned to service. Call 1 holds
  \<open>A\<close>, call 2 waits, and the navigation of \<^verbatim>\<open>release('A')\<close> (call 3) fails:
  \<open>A\<close> is still busy and call 2 is still parked in the queue.
\<close>

theorem failed_navigation_tab_stays_busy:
  "pool_at (exec (boot 1 (Some 9222) True [\<lparr>tid = ''A'', ttype = ''page''\<rparr>] {})
      [Call_require 1, Call_require 2, Resume 2, Call_release 3 ''A'',
       Settle_navigate 3 False])
    = Some \<lparr>port = Some 9222, chromeLauncher = Some (),
                tabs = Some [(''A'', \<lparr>free = False, client = Client ''A''\<rparr>)],
                maxTab = 1, requireResolveTasks = Some [2]\<rparr>
   \<and> frame_at (exec (boot 1 (Some 9222) True [\<lparr>tid = ''A'', ttype = ''page''\<rparr>] {})
      [Call_require 1, Call_require 2, Resume 2, Call_release 3 ''A'',
       Settle_navigate 3 False]) 2
    = Some Require_parked
   \<and> frame_at (exec (boot 1 (Some 9222) True [\<lparr>tid = ''A'', ttype = ''page''\<rparr>] {})
      [Call_require 1, Call_require 2, Resume 2, Call_release 3 ''A'',
       Settle_navigate 3 False]) 3
    = Some (Done (Throw Rejected))"
  by (simp add: run_defs piece_defs one_enat_def)

text \<open>
  The amended claim in the state of that execution before the navigation fails, and
  for a second \<^verbatim>\<open>release('A')\<close> (call 4) started and failing there.
\<close>

theorem failed_navigation_rejects_pool_unchanged_witness:
  "(let s = \<lparr>pool = \<lparr>port = Some 9222, chromeLauncher = Some (),
                      tabs = Some [(''A'', \<lparr>free = False, client = Client ''A''\<rparr>)],
                      maxTab = 1, requireResolveTasks = Some [2]\<rparr>,
             browser = [''A''],
             tasks = [1 \<mapsto> Done (Return_client (Client ''A'')), 2 \<mapsto> Require_parked,
                      3 \<mapsto> Release_navigate ''A'']\<rparr>
    in tasks s 3 = Some (Release_navigate ''A'')
     \<and> step (Settle_navigate 3 False) s
         = Some ([], s\<lparr>tasks := (tasks s)(3 \<mapsto> Done (Throw Rejected))\<rparr>)
     \<and> tasks s 4 = None
     \<and> entry (pool s) ''A'' = Some \<lparr>free = False, client = Client ''A''\<rparr>
     \<and> run [Call_release 4 ''A'', Settle_navigate 4 False] s
         = Some ([], s\<lparr>tasks := (tasks s)(4 \<mapsto> Done (Throw Rejected))\<rparr>))"
  using failed_navigation_rejects_pool_unchanged
    [of "\<lparr>pool = \<lparr>port = Some 9222, chromeLauncher = Some (),
                      tabs = Some [(''A'', \<lparr>free = False, client = Client ''A''\<rparr>)],
                      maxTab = 1, requireResolveTasks = Some [2]\<rparr>,
             browser = [''A''],
             tasks = [1 \<mapsto> Done (Return_client (Client ''A'')), 2 \<mapsto> Require_parked,
                      3 \<mapsto> Release_navigate ''A'']\<rparr>" 3 "''A''" 4 "''A''" "\<lparr>free = False, client = Client ''A''\<rparr>"]
  unfolding Let_def by (simp add: entry_def)

subsection \<open>Calls on a destroyed pool\<close>

text \<open>
  Claim C10: once \<^verbatim>\<open>destroyPoll\<close> has completed, the four fields are
  \<^verbatim>\<open>null\<close>, and whatever happens next, every later call of \<^verbatim>\<open>require\<close>,
  \<^verbatim>\<open>createTab\<close> or \<^verbatim>\<open>release\<close> (and of \<^verbatim>\<open>destroyPoll\<close>) throws a
  \<^verbatim>\<open>TypeError\<close> at its first line and returns no session.
\<close>

theorem calls_after_destroyPoll_throw:
  assumes "tasks s d = Some Destroy_kill"
    and "run (Settle_kill d True # evs) s \<noteq> None"
    and "frame_at (run (Settle_kill d True # evs) s) t = None"
  shows "frame_at (run (Settle_kill d True # evs @ [Call_require t]) s) t
           = Some (Done (Throw TypeError))
       \<and> frame_at (run (Settle_kill d True # evs @ [Call_createTab t]) s) t
           = Some (Done (Throw TypeError))
       \<and> frame_at (run (Settle_kill d True # evs @ [Call_release t i]) s) t
           = Some (Done (Throw TypeError))
       \<and> frame_at (run (Settle_kill d True # evs @ [Call_destroyPoll t]) s) t
           = Some (Done (Throw TypeError))
       \<and> pool_at (run (Settle_kill d True # evs) s) = Some (clear (pool s))
       \<and> destroyed (clear (pool s))"
proof -
  let ?s1 = "settle (s\<lparr>pool := clear (pool s)\<rparr>) d (Done Return_void)"
  from assms(2) obtain os s' where r: "run (Settle_kill d True # evs) s = Some (os, s')"
    by auto
  then obtain o2 where r2: "run evs ?s1 = Some (o2, s')"
    using kill_destroys[OF assms(1)] by (auto split: option.splits)
  have d: "destroyed (pool ?s1)" by (simp add: settle_def destroyed_clear)
  have p: "pool s' = clear (pool s)" using run_destroyed[OF r2 d] by (simp add: settle_def)
  then have d': "destroyed (pool s')" by (simp add: destroyed_clear)
  from assms(3) r have t: "tasks s' t = None" by (simp add: frame_at_def)
  have app: "run (Settle_kill d True # evs @ [e]) s =
     (case step e s' of None \<Rightarrow> None | Some (o3, s3) \<Rightarrow> Some (os @ o3, s3))" for e
    using run_append[of "Settle_kill d True # evs" "[e]" s] r
    by (simp add: run_single split: option.splits del: run.simps)
  show ?thesis using d' t p r
    by (simp add: app frame_at_def pool_at_def destroyed_def piece_defs destroyed_clear
        del: run.simps)
qed

text \<open>
  Call 1 holds \<open>A\<close> and \<^verbatim>\<open>destroyPoll\<close> (call 2) is about to complete; the holder
  then releases \<open>A\<close> (call 3), and call 4 is made after that.
\<close>

theorem calls_after_destroyPoll_throw_witness:
  "(let s = \<lparr>pool = \<lparr>port = Some 9222, chromeLauncher = Some (),
                tabs = Some [(''A'', \<lparr>free = False, client = Client ''A''\<rparr>)],
                maxTab = 1, requireResolveTasks = Some []\<rparr>,
             browser = [''A''],
             tasks = [1 \<mapsto> Done (Return_client (Client ''A'')), 2 \<mapsto> Destroy_kill]\<rparr>
    in tasks s 2 = Some Destroy_kill
     \<and> run [Settle_kill 2 True, Call_release 3 ''A''] s \<noteq> None
     \<and> frame_at (run [Settle_kill 2 True, Call_release 3 ''A''] s) 4 = None
     \<and> frame_at (run [Settle_kill 2 True, Call_release 3 ''A'', Call_require 4] s) 4
         = Some (Done (Throw TypeError))
     \<and> frame_at (run [Settle_kill 2 True, Call_release 3 ''A'', Call_createTab 4] s) 4
         = Some (Done (Throw TypeError))
     \<and> frame_at (run [Settle_kill 2 True, Call_release 3 ''A'', Call_release 4 ''A''] s) 4
         = Some (Done (Throw TypeError)))"
  using calls_after_destroyPoll_throw
    [of "\<lparr>pool = \<lparr>port = Some 9222, chromeLauncher = Some (),
                tabs = Some [(''A'', \<lparr>free = False, client = Client ''A''\<rparr>)],
                maxTab = 1, requireResolveTasks = Some []\<rparr>,
             browser = [''A''],
             tasks = [1 \<mapsto> Done (Return_client (Client ''A'')), 2 \<mapsto> Destroy_kill]\<rparr>" 2
        "[Call_release 3 ''A'']" 4 "''A''"]
  unfolding Let_def by (simp add: piece_defs pool_at_def frame_at_def)

end
